theory Spec2Isabelle
  imports Complex_Main "HOL-Library.Word"
begin

section \<open>The streaming transcriber of \<^verbatim>\<open>src/subtitles.py\<close>\<close>

text \<open>
  The development embeds \<^verbatim>\<open>transcribe_audio\<close> (lines 35-64 of \<^verbatim>\<open>subtitles.py\<close>).
  The function drives the Vosk recogniser, a library outside the repository, so the
  recogniser is a parameter of the model: a record of the six library operations the
  function calls, over an arbitrary type of recogniser states and an arbitrary type of
  exceptions. Everything proved below holds for every such recogniser.

  Conventions of the embedding.
  \<^item> Audio samples are \<^verbatim>\<open>np.int16\<close>, hence 16-bit words; \<^verbatim>\<open>tobytes\<close> is the
    little-endian serialisation of the usual platforms.
  \<^item> The timestamps Vosk reports are JSON numbers, read by Python as floats. They are
    modelled as reals: rounding of the one addition per timestamp is not modelled.
    The running offset \<^verbatim>\<open>segment_start\<close> is a Python integer and is modelled as \<open>int\<close>.
  \<^item> The decoded JSON of \<^verbatim>\<open>Result()\<close> follows Vosk's schema: an object with a
    \<^verbatim>\<open>"text"\<close> string and an optional \<^verbatim>\<open>"result"\<close> list of objects with
    \<^verbatim>\<open>"word"\<close>, \<^verbatim>\<open>"start"\<close> and \<^verbatim>\<open>"end"\<close>.
  \<^item> Strings are lists of characters with code points below 256.
  \<^item> An exception is the left injection of a sum; it carries the state of the outside
    world (log level, standard output) at the moment it was raised.
\<close>

subsection \<open>Data\<close>

type_synonym sample = "16 word"
type_synonym byte = "8 word"

text \<open>One element of \<^verbatim>\<open>result["result"]\<close>.\<close>

record word_info =
  w_word :: string
  w_start :: real
  w_end :: real

text \<open>The dictionary \<^verbatim>\<open>json.loads(recognizer.Result())\<close>; the key \<^verbatim>\<open>"result"\<close> may be absent.\<close>

record vosk_result =
  r_text :: string
  r_result :: "word_info list option"

text \<open>An element of the returned list: the tuple \<^verbatim>\<open>(word_start, word_end, word)\<close>.\<close>

type_synonym subtitle = "real \<times> real \<times> string"

text \<open>What the two \<^verbatim>\<open>print\<close> calls write, and the part of the outside world the function touches.\<close>

datatype printed = Recognized vosk_result | Subtitles "subtitle list"

record world =
  log_level :: int
  stdout :: "printed list"

text \<open>
  The Vosk operations used by \<^verbatim>\<open>transcribe_audio\<close>. \<^verbatim>\<open>Model\<close>, \<^verbatim>\<open>KaldiRecognizer\<close> and
  \<^verbatim>\<open>AcceptWaveform\<close> raise on failure; \<^verbatim>\<open>AcceptWaveform\<close> and \<^verbatim>\<open>Result\<close> change the
  recogniser.
\<close>

record ('e, 'm, 'r) vosk =
  Model :: "string \<Rightarrow> 'e + 'm"
  KaldiRecognizer :: "'m \<Rightarrow> int \<Rightarrow> 'e + 'r"
  SetWords :: "'r \<Rightarrow> bool \<Rightarrow> 'r"
  SetPartialWords :: "'r \<Rightarrow> bool \<Rightarrow> 'r"
  AcceptWaveform :: "'r \<Rightarrow> byte list \<Rightarrow> 'e + (bool \<times> 'r)"
  Result :: "'r \<Rightarrow> vosk_result \<times> 'r"

text \<open>The local variables of the loop, with the world.\<close>

record 'r state =
  subtitles :: "subtitle list"
  segment_start :: int
  recognizer :: 'r
  outside :: world

subsection \<open>Windows\<close>

definition chunk_size :: nat where
  "chunk_size = 8000"

text \<open>\<^verbatim>\<open>range(i, n, chunk_size)\<close>; the loop starts it at \<open>0\<close>.\<close>

function chunk_starts :: "nat \<Rightarrow> nat \<Rightarrow> nat list" where
  "chunk_starts i n = (if i < n then i # chunk_starts (i + chunk_size) n else [])"
  by pat_completeness auto
termination
  by (relation "measure (\<lambda>(i, n). n - i)") (auto simp: chunk_size_def)

declare chunk_starts.simps [simp del]

text \<open>The slice \<^verbatim>\<open>xs[i:j]\<close> for \<open>0 \<le> i \<le> j\<close>: it stops at the end of \<open>xs\<close>.\<close>

definition slice :: "'a list \<Rightarrow> nat \<Rightarrow> nat \<Rightarrow> 'a list" where
  "slice xs i j = take (j - i) (drop i xs)"

definition tobytes :: "sample list \<Rightarrow> byte list" where
  "tobytes xs = concat (map (\<lambda>w. [ucast w, ucast (drop_bit 8 w)]) xs)"

text \<open>The windows the loop feeds, before serialisation.\<close>

definition windows :: "sample list \<Rightarrow> sample list list" where
  "windows audio_data =
     map (\<lambda>i. slice audio_data i (i + chunk_size)) (chunk_starts 0 (length audio_data))"

subsection \<open>Text\<close>

text \<open>The characters \<^verbatim>\<open>str.strip()\<close> removes, among the code points below 256.\<close>

definition is_space :: "char \<Rightarrow> bool" where
  "is_space c = (of_char c \<in> {9, 10, 11, 12, 13, 28, 29, 30, 31, 32, 133, 160 :: nat})"

definition strip :: "string \<Rightarrow> string" where
  "strip s = rev (dropWhile is_space (rev (dropWhile is_space s)))"

subsection \<open>The loop\<close>

definition print :: "printed \<Rightarrow> world \<Rightarrow> world" where
  "print x w = w\<lparr>stdout := stdout w @ [x]\<rparr>"

text \<open>\<^verbatim>\<open>result.get("result", [])\<close>, and lines 55-59: one tuple per element of it.\<close>

definition get_result :: "vosk_result \<Rightarrow> word_info list" where
  "get_result res = (case r_result res of None \<Rightarrow> [] | Some ws \<Rightarrow> ws)"

definition word_entries :: "int \<Rightarrow> vosk_result \<Rightarrow> subtitle list" where
  "word_entries seg res =
     map (\<lambda>word_info. (of_int seg + w_start word_info, of_int seg + w_end word_info, w_word word_info))
       (get_result res)"

text \<open>Lines 49-61: the body of the loop at index \<open>i\<close>.\<close>

definition body ::
  "('e, 'm, 'r) vosk \<Rightarrow> bool \<Rightarrow> sample list \<Rightarrow> nat \<Rightarrow> 'r state \<Rightarrow> ('e \<times> world) + 'r state" where
  "body eng debug audio_data i s =
     (let chunk = tobytes (slice audio_data i (i + chunk_size)) in
      case AcceptWaveform eng (recognizer s) chunk of
        Inl e \<Rightarrow> Inl (e, outside s)
      | Inr (final, r1) \<Rightarrow>
          if final then
            (let (res, r2) = Result eng r1;
                 w = (if debug then print (Recognized res) (outside s) else outside s)
             in if strip (r_text res) \<noteq> [] then
                  Inr \<lparr>subtitles = subtitles s @ word_entries (segment_start s) res,
                       segment_start = segment_start s + 3,
                       recognizer = r2,
                       outside = w\<rparr>
                else Inr (s\<lparr>recognizer := r2, outside := w\<rparr>))
          else Inr (s\<lparr>recognizer := r1\<rparr>))"

text \<open>Line 48: the \<^verbatim>\<open>for\<close> loop over the indices; an exception ends it.\<close>

fun for_loop ::
  "('e, 'm, 'r) vosk \<Rightarrow> bool \<Rightarrow> sample list \<Rightarrow> nat list \<Rightarrow> 'r state \<Rightarrow> ('e \<times> world) + 'r state" where
  "for_loop eng debug audio_data [] s = Inr s"
| "for_loop eng debug audio_data (i # is) s =
     (case body eng debug audio_data i s of
        Inl err \<Rightarrow> Inl err
      | Inr s' \<Rightarrow> for_loop eng debug audio_data is s')"

text \<open>Lines 39-42: the recogniser session.\<close>

definition session :: "('e, 'm, 'r) vosk \<Rightarrow> string \<Rightarrow> int \<Rightarrow> 'e + 'r" where
  "session eng model_path sample_rate =
     (case Model eng model_path of
        Inl e \<Rightarrow> Inl e
      | Inr model \<Rightarrow>
          (case KaldiRecognizer eng model sample_rate of
             Inl e \<Rightarrow> Inl e
           | Inr r \<Rightarrow> Inr (SetPartialWords eng (SetWords eng r True) True)))"

text \<open>Lines 44-61: the loop from its initial state, up to the state after the last window.\<close>

definition transcribe_loop ::
  "('e, 'm, 'r) vosk \<Rightarrow> bool \<Rightarrow> sample list \<Rightarrow> 'r \<Rightarrow> world \<Rightarrow> ('e \<times> world) + 'r state" where
  "transcribe_loop eng debug audio_data r w =
     for_loop eng debug audio_data (chunk_starts 0 (length audio_data))
       \<lparr>subtitles = [], segment_start = 0, recognizer = r, outside = w\<rparr>"

text \<open>
  The whole function. The extra arguments are the library and the world before the call;
  the result is the returned list, or the exception, each with the world after it.
\<close>

definition transcribe_audio ::
  "('e, 'm, 'r) vosk \<Rightarrow> world \<Rightarrow> sample list \<Rightarrow> int \<Rightarrow> string \<Rightarrow> bool
     \<Rightarrow> ('e \<times> world) + (subtitle list \<times> world)" where
  "transcribe_audio eng w0 audio_data sample_rate model_path debug =
     (let w1 = (if \<not> debug then w0\<lparr>log_level := - 1\<rparr> else w0) in
      case session eng model_path sample_rate of
        Inl e \<Rightarrow> Inl (e, w1)
      | Inr r \<Rightarrow>
          (case transcribe_loop eng debug audio_data r w1 of
             Inl err \<Rightarrow> Inl err
           | Inr s \<Rightarrow>
               Inr (subtitles s,
                    if debug then print (Subtitles (subtitles s)) (outside s) else outside s)))"

text \<open>What the caller of \<^verbatim>\<open>transcribe_audio\<close> receives: the list, or the exception.\<close>

definition returned :: "('e \<times> world) + (subtitle list \<times> world) \<Rightarrow> 'e + subtitle list" where
  "returned x = map_sum fst fst x"

subsection \<open>A scripted recogniser\<close>

text \<open>
  A recogniser that answers the \<open>k\<close>-th call of \<^verbatim>\<open>AcceptWaveform\<close> with the \<open>k\<close>-th
  element of a script, whatever the bytes. Its state is the number of calls so far;
  \<^verbatim>\<open>Result\<close> returns the result of the last call. It is used to state scenarios.
\<close>

datatype 'e response = Raises 'e | NotFinal | Final vosk_result

definition empty_result :: vosk_result where
  "empty_result = \<lparr>r_text = [], r_result = None\<rparr>"

definition response_result :: "'e response \<Rightarrow> vosk_result" where
  "response_result x = (case x of Final res \<Rightarrow> res | _ \<Rightarrow> empty_result)"

definition scripted :: "'e response list \<Rightarrow> ('e, unit, nat) vosk" where
  "scripted rs =
     \<lparr>Model = (\<lambda>path. Inr ()),
      KaldiRecognizer = (\<lambda>m rate. Inr 0),
      SetWords = (\<lambda>k b. k),
      SetPartialWords = (\<lambda>k b. k),
      AcceptWaveform = (\<lambda>k chunk.
        if k < length rs then
          (case rs ! k of
             Raises e \<Rightarrow> Inl e
           | NotFinal \<Rightarrow> Inr (False, Suc k)
           | Final res \<Rightarrow> Inr (True, Suc k))
        else Inr (False, Suc k)),
      Result = (\<lambda>k.
        (if 0 < k \<and> k \<le> length rs then response_result (rs ! (k - 1)) else empty_result, k))\<rparr>"

subsection \<open>Scenarios\<close>

text \<open>
  The scenario of the specification: the first window is not final, the second is final
  with the text "hello world" and two words, the third is final with an empty text.
\<close>

definition hello_world :: vosk_result where
  "hello_world =
     \<lparr>r_text = ''hello world'',
      r_result = Some [\<lparr>w_word = ''hello'', w_start = 0.0, w_end = 0.4\<rparr>,
                       \<lparr>w_word = ''world'', w_start = 0.5, w_end = 0.9\<rparr>]\<rparr>"

definition scenario :: "'e response list" where
  "scenario = [NotFinal, Final hello_world, Final empty_result]"

definition quiet :: world where
  "quiet = \<lparr>log_level = 0, stdout = []\<rparr>"

text \<open>
  The second window fails; the third would have been recognised.
\<close>

definition failing :: "'e \<Rightarrow> 'e response list" where
  "failing e = [NotFinal, Raises e, Final hello_world]"

text \<open>
  A library that cannot load the model: \<^verbatim>\<open>Model(model_path)\<close> raises \<open>e\<close>, as Vosk does
  when the directory holds no model. Everything else is the scripted recogniser.
\<close>

definition no_model :: "'e \<Rightarrow> ('e, unit, nat) vosk" where
  "no_model e = (scripted [])\<lparr>Model := (\<lambda>path. Inl e)\<rparr>"

text \<open>
  Four seconds of audio at 16000 Hz, eight windows. The recogniser finalises a first
  utterance at the seventh window, with a word it places 3.25 s into the utterance, and a
  second utterance at the eighth window, with a word at its very start.
\<close>

definition late :: vosk_result where
  "late = \<lparr>r_text = ''late'',
           r_result = Some [\<lparr>w_word = ''late'', w_start = 3.25, w_end = 3.5\<rparr>]\<rparr>"

definition early :: vosk_result where
  "early = \<lparr>r_text = ''early'',
            r_result = Some [\<lparr>w_word = ''early'', w_start = 0.0, w_end = 0.25\<rparr>]\<rparr>"

definition long_utterance :: "'e response list" where
  "long_utterance =
     [NotFinal, NotFinal, NotFinal, NotFinal, NotFinal, NotFinal, Final late, Final early]"

subsection \<open>Counting the results that advance the offset\<close>

text \<open>
  The number of windows, among those at the given indices, whose result is final with a
  text that is not empty after stripping. It follows the recogniser through the windows
  as the loop does, independently of the loop's own variables, and stops at an exception.
\<close>

fun finalized_nonempty :: "('e, 'm, 'r) vosk \<Rightarrow> sample list \<Rightarrow> nat list \<Rightarrow> 'r \<Rightarrow> nat" where
  "finalized_nonempty eng audio_data [] r = 0"
| "finalized_nonempty eng audio_data (i # is) r =
     (case AcceptWaveform eng r (tobytes (slice audio_data i (i + chunk_size))) of
        Inl e \<Rightarrow> 0
      | Inr (final, r1) \<Rightarrow>
          if final then
            (case Result eng r1 of
               (res, r2) \<Rightarrow>
                 (if strip (r_text res) \<noteq> [] then 1 else 0) + finalized_nonempty eng audio_data is r2)
          else finalized_nonempty eng audio_data is r1)"

section \<open>Properties\<close>

subsection \<open>The loop, step by step\<close>

lemma for_loop_append:
  "for_loop eng debug a (xs @ ys) s =
     (case for_loop eng debug a xs s of Inl err \<Rightarrow> Inl err | Inr s' \<Rightarrow> for_loop eng debug a ys s')"
  by (induction xs arbitrary: s) (auto split: sum.splits)

lemma body_raises:
  "AcceptWaveform eng (recognizer s) (tobytes (slice a i (i + chunk_size))) = Inl e \<Longrightarrow>
   body eng debug a i s = Inl (e, outside s)"
  by (simp add: body_def)

lemma body_not_final:
  "AcceptWaveform eng (recognizer s) (tobytes (slice a i (i + chunk_size))) = Inr (False, r1) \<Longrightarrow>
   body eng debug a i s = Inr (s\<lparr>recognizer := r1\<rparr>)"
  by (simp add: body_def)

lemma body_silence:
  "AcceptWaveform eng (recognizer s) (tobytes (slice a i (i + chunk_size))) = Inr (True, r1) \<Longrightarrow>
   Result eng r1 = (res, r2) \<Longrightarrow> strip (r_text res) = [] \<Longrightarrow>
   body eng debug a i s =
     Inr (s\<lparr>recognizer := r2,
            outside := (if debug then print (Recognized res) (outside s) else outside s)\<rparr>)"
  by (simp add: body_def)

lemma body_speech:
  "AcceptWaveform eng (recognizer s) (tobytes (slice a i (i + chunk_size))) = Inr (True, r1) \<Longrightarrow>
   Result eng r1 = (res, r2) \<Longrightarrow> strip (r_text res) \<noteq> [] \<Longrightarrow>
   body eng debug a i s =
     Inr \<lparr>subtitles = subtitles s @ word_entries (segment_start s) res,
          segment_start = segment_start s + 3,
          recognizer = r2,
          outside = (if debug then print (Recognized res) (outside s) else outside s)\<rparr>"
  by (simp add: body_def)

subsection \<open>The scripted recogniser\<close>

lemma scripted_simps:
  "Model (scripted rs) path = Inr ()"
  "KaldiRecognizer (scripted rs) m rate = Inr 0"
  "SetWords (scripted rs) k b = k"
  "SetPartialWords (scripted rs) k b = k"
  "AcceptWaveform (scripted rs) k chunk =
     (if k < length rs then
        (case rs ! k of
           Raises e \<Rightarrow> Inl e
         | NotFinal \<Rightarrow> Inr (False, Suc k)
         | Final res \<Rightarrow> Inr (True, Suc k))
      else Inr (False, Suc k))"
  "Result (scripted rs) k =
     (if 0 < k \<and> k \<le> length rs then response_result (rs ! (k - 1)) else empty_result, k)"
  by (simp_all add: scripted_def)

lemma session_scripted: "session (scripted rs) model_path sample_rate = Inr 0"
  by (simp add: session_def scripted_simps)

lemma chunk_starts_20000: "chunk_starts 0 20000 = [0, 8000, 16000]"
  by (simp add: chunk_starts.simps chunk_size_def)

lemma strip_hello_world: "strip ''hello world'' \<noteq> []"
  by (simp add: strip_def is_space_def)

lemma strip_empty: "strip [] = []"
  by (simp add: strip_def)

lemma loop_scenario:
  "for_loop (scripted scenario) debug a [0, 8000, 16000]
     \<lparr>subtitles = [], segment_start = 0, recognizer = 0, outside = w\<rparr> =
   Inr \<lparr>subtitles = [(0, 0.4, ''hello''), (0.5, 0.9, ''world'')],
        segment_start = 3,
        recognizer = 3,
        outside = (if debug then print (Recognized empty_result) (print (Recognized hello_world) w)
                   else w)\<rparr>"
  by (simp add: body_def scripted_simps scenario_def response_result_def hello_world_def
      empty_result_def strip_hello_world strip_empty word_entries_def get_result_def)

subsection \<open>Windows\<close>

lemma chunk_size_pos: "0 < chunk_size"
  by (simp add: chunk_size_def)

lemma chunk_starts_lt: "i < n \<Longrightarrow> chunk_starts i n = i # chunk_starts (i + chunk_size) n"
  by (subst chunk_starts.simps) simp

lemma chunk_starts_ge: "\<not> i < n \<Longrightarrow> chunk_starts i n = []"
  by (subst chunk_starts.simps) simp

lemma div_add_Suc: "0 < c \<Longrightarrow> (a + c) div c = Suc (a div (c::nat))"
  using div_add_self2 [of c a] by simp

lemma length_step:
  assumes "i < n"
  shows "Suc ((n - (i + chunk_size) + (chunk_size - 1)) div chunk_size)
        = (n - i + (chunk_size - 1)) div chunk_size"
proof (cases "i + chunk_size \<le> n")
  case True
  then have "n - i + (chunk_size - 1) = (n - (i + chunk_size) + (chunk_size - 1)) + chunk_size"
    by simp
  then have "(n - i + (chunk_size - 1)) div chunk_size
      = ((n - (i + chunk_size) + (chunk_size - 1)) + chunk_size) div chunk_size"
    by (rule arg_cong)
  also have "\<dots> = Suc ((n - (i + chunk_size) + (chunk_size - 1)) div chunk_size)"
    by (rule div_add_Suc [OF chunk_size_pos])
  finally show ?thesis by (rule sym)
next
  case False
  have "(n - i + (chunk_size - 1)) div chunk_size = 1"
    using assms False chunk_size_pos by (intro div_nat_eqI) simp_all
  moreover from False have "n - (i + chunk_size) = 0" by simp
  moreover have "(chunk_size - 1) div chunk_size = 0"
    using chunk_size_pos by simp
  ultimately show ?thesis by simp
qed

lemma length_chunk_starts:
  "length (chunk_starts i n) = (n - i + (chunk_size - 1)) div chunk_size"
proof (induction i n rule: chunk_starts.induct)
  case (1 i n)
  show ?case
  proof (cases "i < n")
    case True
    then have "length (chunk_starts i n) = Suc (length (chunk_starts (i + chunk_size) n))"
      by (simp add: chunk_starts_lt)
    also have "\<dots> = Suc ((n - (i + chunk_size) + (chunk_size - 1)) div chunk_size)"
      using 1 True by simp
    also have "\<dots> = (n - i + (chunk_size - 1)) div chunk_size"
      using True by (rule length_step)
    finally show ?thesis .
  next
    case False
    then have "n - i = 0" by simp
    moreover have "(chunk_size - 1) div chunk_size = 0"
      using chunk_size_pos by simp
    ultimately show ?thesis using False by (simp add: chunk_starts_ge)
  qed
qed

lemma chunk_starts_bound: "j \<in> set (chunk_starts i n) \<Longrightarrow> i \<le> j \<and> j < n"
proof (induction i n rule: chunk_starts.induct)
  case (1 i n)
  show ?case
  proof (cases "i < n")
    case True
    with 1 show ?thesis by (auto simp: chunk_starts_lt)
  next
    case False
    with 1(2) show ?thesis by (simp add: chunk_starts_ge)
  qed
qed

lemma concat_slices:
  "concat (map (\<lambda>j. slice a j (j + chunk_size)) (chunk_starts i (length a))) = drop i a"
proof (induction i "length a" rule: chunk_starts.induct)
  case (1 i)
  show ?case
  proof (cases "i < length a")
    case True
    have "take chunk_size (drop i a) @ drop (i + chunk_size) a = drop i a"
      by (metis add.commute append_take_drop_id drop_drop)
    with True 1 show ?thesis
      by (simp add: chunk_starts_lt slice_def)
  next
    case False
    then show ?thesis by (simp add: chunk_starts_ge)
  qed
qed

lemma full_slices:
  "list_all (\<lambda>w. length w = chunk_size)
     (butlast (map (\<lambda>j. slice a j (j + chunk_size)) (chunk_starts i (length a))))"
proof (induction i "length a" rule: chunk_starts.induct)
  case (1 i)
  show ?case
  proof (cases "i < length a")
    case True
    note lt = this
    show ?thesis
    proof (cases "i + chunk_size < length a")
      case True
      then have "chunk_starts (i + chunk_size) (length a) \<noteq> []"
        by (simp add: chunk_starts_lt)
      with True lt 1 show ?thesis
        by (simp add: chunk_starts_lt [OF lt] slice_def)
    next
      case False
      then have "chunk_starts (i + chunk_size) (length a) = []"
        by (simp add: chunk_starts_ge)
      with lt show ?thesis by (simp add: chunk_starts_lt [OF lt])
    qed
  next
    case False
    then show ?thesis by (simp add: chunk_starts_ge)
  qed
qed

lemma nonempty_slices:
  "list_all (\<lambda>w. 0 < length w \<and> length w \<le> chunk_size)
     (map (\<lambda>j. slice a j (j + chunk_size)) (chunk_starts i (length a)))"
  by (auto simp: list_all_iff slice_def chunk_size_pos dest: chunk_starts_bound)

lemma nth_chunk_starts:
  "k < length (chunk_starts i n) \<Longrightarrow> chunk_starts i n ! k = i + k * chunk_size"
proof (induction i n arbitrary: k rule: chunk_starts.induct)
  case (1 i n)
  show ?case
  proof (cases "i < n")
    case True
    show ?thesis
    proof (cases k)
      case 0
      with True show ?thesis by (simp add: chunk_starts_lt)
    next
      case (Suc k')
      with 1(2) True have "k' < length (chunk_starts (i + chunk_size) n)"
        by (simp add: chunk_starts_lt)
      with 1(1) True have "chunk_starts (i + chunk_size) n ! k' = i + chunk_size + k' * chunk_size"
        by simp
      with True Suc show ?thesis by (simp add: chunk_starts_lt)
    qed
  next
    case False
    with 1(2) show ?thesis by (simp add: chunk_starts_ge)
  qed
qed

subsection \<open>Stripped text\<close>

lemma strip_eq_Nil_iff: "strip s = [] \<longleftrightarrow> list_all is_space s"
proof
  assume "strip s = []"
  then have "dropWhile is_space (rev (dropWhile is_space s)) = []"
    by (simp add: strip_def)
  then have all: "\<forall>x\<in>set (dropWhile is_space s). is_space x"
    by simp
  have "dropWhile is_space s = []"
  proof (rule ccontr)
    assume ne: "dropWhile is_space s \<noteq> []"
    then have "\<not> is_space (hd (dropWhile is_space s))"
      by (rule hd_dropWhile)
    moreover from ne have "hd (dropWhile is_space s) \<in> set (dropWhile is_space s)"
      by simp
    ultimately show False using all by blast
  qed
  then show "list_all is_space s"
    by (simp add: list_all_iff)
next
  assume "list_all is_space s"
  then have "dropWhile is_space s = []"
    by (simp add: list_all_iff)
  then show "strip s = []"
    by (simp only: strip_def rev.simps dropWhile.simps)
qed

lemma loop_scenario_prefix:
  "for_loop (scripted scenario) debug a [0, 8000]
     \<lparr>subtitles = [], segment_start = 0, recognizer = 0, outside = w\<rparr> =
   Inr \<lparr>subtitles = [(0, 0.4, ''hello''), (0.5, 0.9, ''world'')],
        segment_start = 3,
        recognizer = 2,
        outside = (if debug then print (Recognized hello_world) w else w)\<rparr>"
  by (simp add: body_def scripted_simps scenario_def response_result_def hello_world_def
      strip_hello_world word_entries_def get_result_def)

subsection \<open>The offset\<close>

lemma body_Inr_cases:
  assumes "body eng debug a i s = Inr s'"
  obtains (not_final) r1 where
      "AcceptWaveform eng (recognizer s) (tobytes (slice a i (i + chunk_size))) = Inr (False, r1)"
      "s' = s\<lparr>recognizer := r1\<rparr>"
  | (silence) r1 res r2 where
      "AcceptWaveform eng (recognizer s) (tobytes (slice a i (i + chunk_size))) = Inr (True, r1)"
      "Result eng r1 = (res, r2)" "strip (r_text res) = []"
      "s' = s\<lparr>recognizer := r2,
            outside := (if debug then print (Recognized res) (outside s) else outside s)\<rparr>"
  | (speech) r1 res r2 where
      "AcceptWaveform eng (recognizer s) (tobytes (slice a i (i + chunk_size))) = Inr (True, r1)"
      "Result eng r1 = (res, r2)" "strip (r_text res) \<noteq> []"
      "s' = \<lparr>subtitles = subtitles s @ word_entries (segment_start s) res,
          segment_start = segment_start s + 3, recognizer = r2,
          outside = (if debug then print (Recognized res) (outside s) else outside s)\<rparr>"
proof (cases "AcceptWaveform eng (recognizer s) (tobytes (slice a i (i + chunk_size)))")
  case (Inl e)
  with assms show ?thesis by (simp add: body_raises)
next
  case (Inr p)
  obtain final r1 where p: "p = (final, r1)" by (cases p)
  obtain res r2 where res: "Result eng r1 = (res, r2)" by (cases "Result eng r1")
  show ?thesis
  proof (cases final)
    case False
    with Inr p have acc: "AcceptWaveform eng (recognizer s) (tobytes (slice a i (i + chunk_size)))
        = Inr (False, r1)" by simp
    with assms have "s' = s\<lparr>recognizer := r1\<rparr>" by (simp add: body_not_final)
    with acc show ?thesis by (rule not_final)
  next
    case True
    with Inr p have acc: "AcceptWaveform eng (recognizer s) (tobytes (slice a i (i + chunk_size)))
        = Inr (True, r1)" by simp
    show ?thesis
    proof (cases "strip (r_text res) = []")
      case True
      with assms acc res have "s' = s\<lparr>recognizer := r2,
          outside := (if debug then print (Recognized res) (outside s) else outside s)\<rparr>"
        by (simp add: body_silence)
      with acc res True show ?thesis by (rule silence)
    next
      case False
      with assms acc res have "s' = \<lparr>subtitles = subtitles s @ word_entries (segment_start s) res,
          segment_start = segment_start s + 3, recognizer = r2,
          outside = (if debug then print (Recognized res) (outside s) else outside s)\<rparr>"
        by (simp add: body_speech)
      with acc res False show ?thesis by (rule speech)
    qed
  qed
qed

lemma body_segment_start:
  assumes "body eng debug a i s = Inr s'"
  shows "3 * int (finalized_nonempty eng a (i # is) (recognizer s)) =
           (segment_start s' - segment_start s) +
           3 * int (finalized_nonempty eng a is (recognizer s'))"
  using assms by (cases rule: body_Inr_cases) simp_all

lemma for_loop_segment_start:
  "for_loop eng debug a is s = Inr s' \<Longrightarrow>
   segment_start s' = segment_start s + 3 * int (finalized_nonempty eng a is (recognizer s))"
proof (induction "is" arbitrary: s)
  case Nil
  then show ?case by simp
next
  case (Cons i "is")
  from Cons.prems obtain s1 where b: "body eng debug a i s = Inr s1"
    and l: "for_loop eng debug a is s1 = Inr s'"
    by (auto split: sum.splits)
  from Cons.IH [OF l] have "segment_start s' =
      segment_start s1 + 3 * int (finalized_nonempty eng a is (recognizer s1))" .
  moreover note body_segment_start [OF b, of "is"]
  ultimately show ?case by simp
qed

lemma for_loop_prefix:
  "for_loop eng debug a (pre @ post) s = Inr s2 \<Longrightarrow>
   \<exists>s1. for_loop eng debug a pre s = Inr s1 \<and> for_loop eng debug a post s1 = Inr s2"
  by (auto simp: for_loop_append split: sum.splits)

lemma transcribe_loop_scenario:
  "length a = 20000 \<Longrightarrow>
   transcribe_loop (scripted scenario) debug a 0 w =
     Inr \<lparr>subtitles = [(0, 0.4, ''hello''), (0.5, 0.9, ''world'')],
          segment_start = 3,
          recognizer = 3,
          outside = (if debug then print (Recognized empty_result) (print (Recognized hello_world) w)
                     else w)\<rparr>"
  by (simp only: transcribe_loop_def chunk_starts_20000 loop_scenario)

subsection \<open>The debug flag\<close>




lemma transcribe_audio_scenario_quiet:
  "length a = 20000 \<Longrightarrow>
   transcribe_audio (scripted scenario) w a sample_rate model_path False =
     Inr ([(0, 0.4, ''hello''), (0.5, 0.9, ''world'')], w\<lparr>log_level := - 1\<rparr>)"
  by (simp add: transcribe_audio_def session_scripted transcribe_loop_scenario)

text \<open>What the scripted recogniser can return.\<close>

lemma scripted_Result:
  assumes "list_all (\<lambda>x. P (response_result x)) rs" and "P empty_result"
  shows "P (fst (Result (scripted rs) k))"
proof (cases "0 < k \<and> k \<le> length rs")
  case True
  then have "k - 1 < length rs" by arith
  then have "rs ! (k - 1) \<in> set rs" by (rule nth_mem)
  with assms(1) have "P (response_result (rs ! (k - 1)))"
    by (simp add: list_all_iff)
  with True show ?thesis by (simp add: scripted_simps)
next
  case False
  with assms(2) show ?thesis by (auto simp: scripted_simps)
qed

lemma scenario_results:
  assumes "P hello_world" and "P empty_result"
  shows "P (fst (Result (scripted scenario) k))"
proof (rule scripted_Result [where P = P])
  show "list_all (\<lambda>x. P (response_result x)) scenario"
    using assms by (simp add: scenario_def response_result_def)
  show "P empty_result" by (rule assms(2))
qed

subsection \<open>Valid entries\<close>

lemma word_entries_valid:
  assumes "list_all (\<lambda>wi. 0 \<le> w_start wi \<and> w_start wi \<le> w_end wi) (get_result res)"
    and "0 \<le> seg"
  shows "list_all (\<lambda>(st, en, word). 0 \<le> st \<and> st \<le> en) (word_entries seg res)"
  using assms by (auto simp: word_entries_def list_all_iff)

lemma body_valid:
  assumes "\<forall>r. list_all (\<lambda>wi. 0 \<le> w_start wi \<and> w_start wi \<le> w_end wi)
             (get_result (fst (Result eng r)))"
    and "body eng debug a i s = Inr s'"
    and "list_all (\<lambda>(st, en, word). 0 \<le> st \<and> st \<le> en) (subtitles s)"
    and "0 \<le> segment_start s"
  shows "list_all (\<lambda>(st, en, word). 0 \<le> st \<and> st \<le> en) (subtitles s') \<and> 0 \<le> segment_start s'"
  using assms(2)
proof (cases rule: body_Inr_cases)
  case (not_final r1)
  with assms(3,4) show ?thesis by simp
next
  case (silence r1 res r2)
  with assms(3,4) show ?thesis by simp
next
  case (speech r1 res r2)
  from assms(1) have "list_all (\<lambda>wi. 0 \<le> w_start wi \<and> w_start wi \<le> w_end wi)
      (get_result (fst (Result eng r1)))" ..
  with speech(2) have "list_all (\<lambda>wi. 0 \<le> w_start wi \<and> w_start wi \<le> w_end wi) (get_result res)"
    by simp
  from word_entries_valid [OF this assms(4)] speech(4) assms(3,4) show ?thesis by simp
qed

lemma for_loop_valid:
  assumes "\<forall>r. list_all (\<lambda>wi. 0 \<le> w_start wi \<and> w_start wi \<le> w_end wi)
             (get_result (fst (Result eng r)))"
  shows "for_loop eng debug a is s = Inr s' \<Longrightarrow>
    list_all (\<lambda>(st, en, word). 0 \<le> st \<and> st \<le> en) (subtitles s) \<Longrightarrow> 0 \<le> segment_start s \<Longrightarrow>
    list_all (\<lambda>(st, en, word). 0 \<le> st \<and> st \<le> en) (subtitles s')"
proof (induction "is" arbitrary: s)
  case Nil
  then show ?case by simp
next
  case (Cons i "is")
  from Cons.prems(1) obtain s1 where b: "body eng debug a i s = Inr s1"
    and l: "for_loop eng debug a is s1 = Inr s'"
    by (auto split: sum.splits)
  from body_valid [OF assms b Cons.prems(2,3)] Cons.IH [OF l] show ?case by simp
qed

subsection \<open>An utterance longer than the step of the offset\<close>

lemma body_scripted_NotFinal:
  "recognizer s = k \<Longrightarrow> k < length rs \<Longrightarrow> rs ! k = NotFinal \<Longrightarrow>
   body (scripted rs) debug a i s = Inr (s\<lparr>recognizer := Suc k\<rparr>)"
  by (simp add: body_def scripted_simps)

lemma body_scripted_Final:
  "recognizer s = k \<Longrightarrow> k < length rs \<Longrightarrow> rs ! k = Final res \<Longrightarrow> strip (r_text res) \<noteq> [] \<Longrightarrow>
   body (scripted rs) debug a i s =
     Inr \<lparr>subtitles = subtitles s @ word_entries (segment_start s) res,
          segment_start = segment_start s + 3, recognizer = Suc k,
          outside = (if debug then print (Recognized res) (outside s) else outside s)\<rparr>"
  by (simp add: body_def scripted_simps response_result_def)

lemma chunk_starts_64000:
  "chunk_starts 0 64000 = [0, 8000, 16000, 24000, 32000, 40000] @ [48000, 56000]"
  by (simp add: chunk_starts.simps chunk_size_def)

lemma strip_late: "strip ''late'' \<noteq> []"
  by (simp add: strip_def is_space_def)

lemma strip_early: "strip ''early'' \<noteq> []"
  by (simp add: strip_def is_space_def)

lemma entries_late: "word_entries 0 late = [(3.25, 3.5, ''late'')]"
  by (simp add: word_entries_def get_result_def late_def)

lemma entries_early: "word_entries 3 early = [(3.0, 3.25, ''early'')]"
  by (simp add: word_entries_def get_result_def early_def)

lemma long_utterance_nth:
  "long_utterance ! 6 = Final late" "long_utterance ! 7 = Final early"
  "length long_utterance = 8"
  by (simp_all add: long_utterance_def)

lemma loop_silent_six:
  "for_loop (scripted long_utterance) False a [0, 8000, 16000, 24000, 32000, 40000]
     \<lparr>subtitles = [], segment_start = 0, recognizer = 0, outside = w\<rparr> =
   Inr \<lparr>subtitles = [], segment_start = 0, recognizer = 6, outside = w\<rparr>"
  by (simp add: body_scripted_NotFinal long_utterance_def)

lemma loop_two_results:
  "for_loop (scripted long_utterance) False a [48000, 56000]
     \<lparr>subtitles = [], segment_start = 0, recognizer = 6, outside = w\<rparr> =
   Inr \<lparr>subtitles = [(3.25, 3.5, ''late''), (3.0, 3.25, ''early'')],
        segment_start = 6, recognizer = 8, outside = w\<rparr>"
proof -
  have tl: "strip (r_text late) \<noteq> []" and te: "strip (r_text early) \<noteq> []"
    by (simp_all add: late_def early_def strip_late strip_early)
  have s1: "body (scripted long_utterance) False a 48000
       \<lparr>subtitles = [], segment_start = 0, recognizer = 6, outside = w\<rparr> =
      Inr \<lparr>subtitles = [(3.25, 3.5, ''late'')], segment_start = 3, recognizer = 7, outside = w\<rparr>"
    by (subst body_scripted_Final [OF _ _ long_utterance_nth(1) tl])
      (simp_all add: long_utterance_nth(3) entries_late)
  have s2: "body (scripted long_utterance) False a 56000
       \<lparr>subtitles = [(3.25, 3.5, ''late'')], segment_start = 3, recognizer = 7, outside = w\<rparr> =
      Inr \<lparr>subtitles = [(3.25, 3.5, ''late''), (3.0, 3.25, ''early'')],
           segment_start = 6, recognizer = 8, outside = w\<rparr>"
    by (subst body_scripted_Final [OF _ _ long_utterance_nth(2) te])
      (simp_all add: long_utterance_nth(3) entries_early)
  show ?thesis by (simp only: for_loop.simps s1 s2 sum.case)
qed

lemma transcribe_loop_long_utterance:
  assumes "length a = 64000"
  shows "transcribe_loop (scripted long_utterance) False a 0 w =
    Inr \<lparr>subtitles = [(3.25, 3.5, ''late''), (3.0, 3.25, ''early'')],
         segment_start = 6, recognizer = 8, outside = w\<rparr>"
  by (simp only: transcribe_loop_def assms chunk_starts_64000 for_loop_append loop_silent_six
      loop_two_results sum.case)

lemma transcribe_audio_long_utterance:
  "length a = 64000 \<Longrightarrow>
   transcribe_audio (scripted long_utterance) w a sample_rate model_path False =
     Inr ([(3.25, 3.5, ''late''), (3.0, 3.25, ''early'')], w\<lparr>log_level := - 1\<rparr>)"
  by (simp add: transcribe_audio_def session_scripted transcribe_loop_long_utterance)

subsection \<open>Ordered entries\<close>

lemma word_entries_ordered:
  assumes "sorted (map w_start (get_result res))"
    and "list_all (\<lambda>wi. 0 \<le> w_start wi \<and> w_start wi \<le> 3) (get_result res)"
  shows "sorted (map fst (word_entries seg res)) \<and>
    list_all (\<lambda>(st, en, word). of_int seg \<le> st \<and> st \<le> of_int (seg + 3)) (word_entries seg res)"
proof -
  have "sorted (map w_start ws) \<Longrightarrow>
      sorted (map (\<lambda>word_info. real_of_int seg + w_start word_info) ws)" for ws
    by (induction ws) auto
  with assms(1) have "sorted (map fst (word_entries seg res))"
    by (simp add: word_entries_def comp_def)
  moreover from assms(2)
  have "list_all (\<lambda>(st, en, word). of_int seg \<le> st \<and> st \<le> of_int (seg + 3)) (word_entries seg res)"
    by (auto simp: word_entries_def list_all_iff)
  ultimately show ?thesis by (intro conjI)
qed

lemma body_ordered:
  assumes "\<forall>r. sorted (map w_start (get_result (fst (Result eng r)))) \<and>
             list_all (\<lambda>wi. 0 \<le> w_start wi \<and> w_start wi \<le> 3) (get_result (fst (Result eng r)))"
    and "body eng debug a i s = Inr s'"
    and "sorted (map fst (subtitles s))"
    and "list_all (\<lambda>(st, en, word). st \<le> of_int (segment_start s)) (subtitles s)"
  shows "sorted (map fst (subtitles s')) \<and>
    list_all (\<lambda>(st, en, word). st \<le> of_int (segment_start s')) (subtitles s')"
  using assms(2)
proof (cases rule: body_Inr_cases)
  case (not_final r1)
  with assms(3,4) show ?thesis by simp
next
  case (silence r1 res r2)
  with assms(3,4) show ?thesis by simp
next
  case (speech r1 res r2)
  from assms(1) have "sorted (map w_start (get_result (fst (Result eng r1)))) \<and>
      list_all (\<lambda>wi. 0 \<le> w_start wi \<and> w_start wi \<le> 3) (get_result (fst (Result eng r1)))" ..
  with speech(2) have "sorted (map w_start (get_result res))"
    and "list_all (\<lambda>wi. 0 \<le> w_start wi \<and> w_start wi \<le> 3) (get_result res)"
    by simp_all
  from word_entries_ordered [OF this, of "segment_start s"]
  have new: "sorted (map fst (word_entries (segment_start s) res))"
    and bounds: "list_all (\<lambda>(st, en, word). of_int (segment_start s) \<le> st \<and>
        st \<le> of_int (segment_start s + 3)) (word_entries (segment_start s) res)"
    by simp_all
  have "sorted (map fst (subtitles s @ word_entries (segment_start s) res))"
    using assms(3,4) new bounds by (fastforce simp: sorted_append list_all_iff)
  moreover have "list_all (\<lambda>(st, en, word). st \<le> of_int (segment_start s + 3))
      (subtitles s @ word_entries (segment_start s) res)"
    using assms(4) bounds by (fastforce simp: list_all_iff)
  ultimately show ?thesis using speech(4) by simp
qed

lemma for_loop_ordered:
  assumes "\<forall>r. sorted (map w_start (get_result (fst (Result eng r)))) \<and>
             list_all (\<lambda>wi. 0 \<le> w_start wi \<and> w_start wi \<le> 3) (get_result (fst (Result eng r)))"
  shows "for_loop eng debug a is s = Inr s' \<Longrightarrow>
    sorted (map fst (subtitles s)) \<Longrightarrow>
    list_all (\<lambda>(st, en, word). st \<le> of_int (segment_start s)) (subtitles s) \<Longrightarrow>
    sorted (map fst (subtitles s'))"
proof (induction "is" arbitrary: s)
  case Nil
  then show ?case by simp
next
  case (Cons i "is")
  from Cons.prems(1) obtain s1 where b: "body eng debug a i s = Inr s1"
    and l: "for_loop eng debug a is s1 = Inr s'"
    by (auto split: sum.splits)
  note inv = body_ordered [OF assms b Cons.prems(2,3)]
  from inv [THEN conjunct1] inv [THEN conjunct2] show ?case by (rule Cons.IH [OF l])
qed

section \<open>The claims\<close>

text \<open>
  C1. The scenario of the specification. A buffer of 20000 samples is cut into three
  windows of 8000, 8000 and 4000 samples. When the recogniser answers the first with
  "not final", the second with the final text "hello world" and the words
  ("hello", 0.0, 0.4) and ("world", 0.5, 0.9), and the third with a final empty text,
  \<^verbatim>\<open>transcribe_audio\<close> returns exactly (0.0, 0.4, "hello") and (0.5, 0.9, "world"), and
  the loop ends with \<^verbatim>\<open>segment_start\<close> at 3: it was advanced once, by the second window.
\<close>

theorem scenario_hello_world:
  assumes "length audio_data = 20000"
  shows "map length (windows audio_data) = [8000, 8000, 4000] \<and>
    transcribe_loop (scripted scenario) debug audio_data 0 w =
      Inr \<lparr>subtitles = [(0, 0.4, ''hello''), (0.5, 0.9, ''world'')],
           segment_start = 3,
           recognizer = 3,
           outside = (if debug then print (Recognized empty_result) (print (Recognized hello_world) w)
                      else w)\<rparr> \<and>
    returned (transcribe_audio (scripted scenario) w audio_data 16000 model_path debug) =
      Inr [(0, 0.4, ''hello''), (0.5, 0.9, ''world'')]"
proof -
  have starts: "chunk_starts 0 (length audio_data) = [0, 8000, 16000]"
    using assms by (simp add: chunk_starts_20000)
  have win: "map length (windows audio_data) = [8000, 8000, 4000]"
    using assms by (simp add: windows_def chunk_starts_20000 slice_def chunk_size_def)
  have loop: "transcribe_loop (scripted scenario) debug audio_data 0 w' =
      Inr \<lparr>subtitles = [(0, 0.4, ''hello''), (0.5, 0.9, ''world'')],
           segment_start = 3,
           recognizer = 3,
           outside = (if debug then print (Recognized empty_result) (print (Recognized hello_world) w')
                      else w')\<rparr>" for w'
    by (simp only: transcribe_loop_def starts loop_scenario)
  have ret: "returned (transcribe_audio (scripted scenario) w audio_data 16000 model_path debug) =
      Inr [(0, 0.4, ''hello''), (0.5, 0.9, ''world'')]"
    by (simp add: returned_def transcribe_audio_def session_scripted loop)
  from win loop [of w] ret show ?thesis by (intro conjI)
qed

theorem scenario_hello_world_witness:
  "length (replicate 20000 (0 :: sample)) = 20000 \<and>
   returned (transcribe_audio (scripted (scenario :: unit response list)) quiet
      (replicate 20000 0) 16000 ''vosk-model-small-en-us-0.15'' False) =
     Inr [(0, 0.4, ''hello''), (0.5, 0.9, ''world'')]"
proof -
  have len: "length (replicate 20000 (0 :: sample)) = 20000" by simp
  have "returned (transcribe_audio (scripted (scenario :: unit response list)) quiet
      (replicate 20000 0) 16000 ''vosk-model-small-en-us-0.15'' False) =
     Inr [(0, 0.4, ''hello''), (0.5, 0.9, ''world'')]"
    by (rule scenario_hello_world [OF len, THEN conjunct2, THEN conjunct2])
  with len show ?thesis by (intro conjI)
qed

text \<open>
  C7. The windows the loop feeds are \<^verbatim>\<open>audio_data[i:i+8000]\<close> for \<open>i = 0, 8000, ...\<close> below
  the length of the buffer (\<^const>\<open>windows\<close> lists them; \<^const>\<open>body\<close> takes the same slice).
  Put one after the other they are the buffer again, so they cover it in order and do not
  overlap; every window but the last has 8000 samples, the last has between 1 and 8000;
  there are \<open>\<lceil>n / 8000\<rceil>\<close> of them, the \<open>k\<close>-th starting at sample \<open>8000 k\<close>. The windows
  are a function of the buffer alone, so windowing the same buffer again gives the same
  windows.
\<close>

theorem windows_partition:
  "concat (windows audio_data) = audio_data \<and>
   list_all (\<lambda>w. length w = 8000) (butlast (windows audio_data)) \<and>
   list_all (\<lambda>w. 0 < length w \<and> length w \<le> 8000) (windows audio_data) \<and>
   length (windows audio_data) = (length audio_data + 7999) div 8000 \<and>
   (\<forall>k. k < length (windows audio_data) \<longrightarrow>
      windows audio_data ! k = take 8000 (drop (k * 8000) audio_data))"
proof (intro conjI allI impI)
  show "concat (windows audio_data) = audio_data"
    using concat_slices [of audio_data 0] by (simp add: windows_def)
  show "list_all (\<lambda>w. length w = 8000) (butlast (windows audio_data))"
    using full_slices [of audio_data 0] by (simp add: windows_def chunk_size_def)
  show "list_all (\<lambda>w. 0 < length w \<and> length w \<le> 8000) (windows audio_data)"
    using nonempty_slices [of audio_data 0] by (simp add: windows_def chunk_size_def)
  show "length (windows audio_data) = (length audio_data + 7999) div 8000"
    using length_chunk_starts [of 0 "length audio_data"] by (simp add: windows_def chunk_size_def)
next
  fix k
  assume "k < length (windows audio_data)"
  then have k: "k < length (chunk_starts 0 (length audio_data))"
    by (simp add: windows_def)
  then have "windows audio_data ! k = slice audio_data (k * chunk_size) (k * chunk_size + chunk_size)"
    by (simp add: windows_def nth_chunk_starts)
  then show "windows audio_data ! k = take 8000 (drop (k * 8000) audio_data)"
    by (simp add: slice_def chunk_size_def)
qed

theorem windows_partition_witness:
  "length (windows (replicate 20000 (0 :: sample))) = 3 \<and>
   windows (replicate 20000 (0 :: sample)) ! 2 = replicate 4000 0"
proof -
  have len: "length (windows (replicate 20000 (0 :: sample))) = 3"
    using windows_partition [of "replicate 20000 (0 :: sample)"] by simp
  then have "(2::nat) < length (windows (replicate 20000 (0 :: sample)))" by simp
  with windows_partition [of "replicate 20000 (0 :: sample)"]
  have "windows (replicate 20000 (0 :: sample)) ! 2 = take 8000 (drop (2 * 8000) (replicate 20000 0))"
    by blast
  with len show ?thesis by simp
qed

text \<open>
  C6. The specification says that an empty buffer gives the empty list and never an error.
  The code creates the model and the recogniser (lines 39-40) before it looks at the
  buffer, so an exception of either call is raised for an empty buffer as for any other:
  the last theorem below is an empty buffer with a model that cannot be loaded.
  What holds is the law for a session that was created: \<^verbatim>\<open>range(0, 0, 8000)\<close> is empty, the
  loop body never runs, \<^verbatim>\<open>AcceptWaveform\<close> is never called (the recogniser is left as the
  session created it) and the function returns the empty list.
\<close>

theorem empty_audio:
  assumes "session eng model_path sample_rate = Inr r"
  shows "transcribe_loop eng debug [] r w' =
           Inr \<lparr>subtitles = [], segment_start = 0, recognizer = r, outside = w'\<rparr> \<and>
         transcribe_audio eng w [] sample_rate model_path debug =
           Inr ([], if debug then print (Subtitles []) w else w\<lparr>log_level := - 1\<rparr>)"
  using assms
  by (simp add: transcribe_audio_def transcribe_loop_def chunk_starts_ge)

theorem empty_audio_witness:
  "session (scripted [Raises ()]) ''vosk-model-small-en-us-0.15'' 16000 = Inr 0 \<and>
   returned (transcribe_audio (scripted [Raises ()]) quiet [] 16000
     ''vosk-model-small-en-us-0.15'' False) = Inr []"
proof -
  have s: "session (scripted [Raises ()]) ''vosk-model-small-en-us-0.15'' 16000 = Inr 0"
    by (rule session_scripted)
  have "transcribe_audio (scripted [Raises ()]) quiet [] 16000 ''vosk-model-small-en-us-0.15'' False
      = Inr ([], quiet\<lparr>log_level := - 1\<rparr>)"
    using empty_audio [OF s, of False quiet quiet] by simp
  with s show ?thesis by (simp add: returned_def)
qed

theorem empty_audio_counterexample:
  "session (no_model ()) ''vosk-model-small-en-us-0.15'' 16000 = Inl () \<and>
   returned (transcribe_audio (no_model ()) quiet [] 16000
     ''vosk-model-small-en-us-0.15'' False) = Inl () \<and>
   returned (transcribe_audio (no_model ()) quiet [] 16000
     ''vosk-model-small-en-us-0.15'' False) \<noteq> Inr []"
  by (simp add: returned_def transcribe_audio_def session_def no_model_def scripted_def)

text \<open>
  C5. A window the recogniser answers with "not final" (\<^verbatim>\<open>AcceptWaveform\<close> returns a
  false value): the body returns normally, with the list, the offset and the output
  unchanged; only the recogniser has moved on. The run over any further windows continues
  from that state.
\<close>

theorem not_final_discarded:
  assumes "for_loop eng debug a pre s0 = Inr s1"
    and "AcceptWaveform eng (recognizer s1) (tobytes (slice a i (i + chunk_size))) = Inr (False, r1)"
  shows "body eng debug a i s1 = Inr (s1\<lparr>recognizer := r1\<rparr>) \<and>
         for_loop eng debug a (pre @ i # post) s0 =
           for_loop eng debug a post (s1\<lparr>recognizer := r1\<rparr>)"
  using assms by (simp add: for_loop_append body_not_final)

theorem not_final_discarded_witness:
  "for_loop (scripted (scenario :: unit response list)) False (replicate 20000 0) []
     \<lparr>subtitles = [], segment_start = 0, recognizer = 0, outside = quiet\<rparr> =
     Inr \<lparr>subtitles = [], segment_start = 0, recognizer = 0, outside = quiet\<rparr> \<and>
   AcceptWaveform (scripted (scenario :: unit response list)) 0
     (tobytes (slice (replicate 20000 0) 0 (0 + chunk_size))) = Inr (False, 1) \<and>
   for_loop (scripted (scenario :: unit response list)) False (replicate 20000 0) ([] @ [0])
     \<lparr>subtitles = [], segment_start = 0, recognizer = 0, outside = quiet\<rparr> =
     Inr \<lparr>subtitles = [], segment_start = 0, recognizer = 1, outside = quiet\<rparr>"
proof -
  let ?s = "\<lparr>subtitles = [], segment_start = 0, recognizer = 0 :: nat, outside = quiet\<rparr>"
  let ?eng = "scripted (scenario :: unit response list)"
  have pre: "for_loop ?eng False (replicate 20000 0) [] ?s = Inr ?s" by simp
  have acc: "AcceptWaveform ?eng (recognizer ?s)
      (tobytes (slice (replicate 20000 0) 0 (0 + chunk_size))) = Inr (False, 1)"
    by (simp add: scripted_simps scenario_def)
  from not_final_discarded [OF pre acc, of "[]"]
  have "for_loop ?eng False (replicate 20000 0) ([] @ [0]) ?s = Inr (?s\<lparr>recognizer := 1\<rparr>)"
    by simp
  with pre acc show ?thesis by simp
qed

text \<open>
  C4. A window the recogniser finalises with a text that is empty or consists of
  whitespace only: the body adds no entry and leaves \<^verbatim>\<open>segment_start\<close> as it was. The
  recogniser moves on and, with \<^verbatim>\<open>debug\<close>, the result is printed; the run over any
  further windows continues from that state.
\<close>

theorem silence_discarded:
  assumes "for_loop eng debug a pre s0 = Inr s1"
    and "AcceptWaveform eng (recognizer s1) (tobytes (slice a i (i + chunk_size))) = Inr (True, r1)"
    and "Result eng r1 = (res, r2)"
    and "list_all is_space (r_text res)"
  shows "(\<exists>s2. body eng debug a i s1 = Inr s2 \<and> subtitles s2 = subtitles s1 \<and>
            segment_start s2 = segment_start s1) \<and>
         for_loop eng debug a (pre @ i # post) s0 =
           for_loop eng debug a post
             (s1\<lparr>recognizer := r2,
                 outside := (if debug then print (Recognized res) (outside s1) else outside s1)\<rparr>)"
proof -
  from assms(4) have "strip (r_text res) = []"
    by (simp add: strip_eq_Nil_iff)
  with assms(2,3) have b: "body eng debug a i s1 =
      Inr (s1\<lparr>recognizer := r2,
              outside := (if debug then print (Recognized res) (outside s1) else outside s1)\<rparr>)"
    by (rule body_silence)
  then show ?thesis using assms(1) by (simp add: for_loop_append)
qed

theorem silence_discarded_witness:
  "for_loop (scripted (scenario :: unit response list)) False (replicate 20000 0) [0, 8000]
     \<lparr>subtitles = [], segment_start = 0, recognizer = 0, outside = quiet\<rparr> =
     Inr \<lparr>subtitles = [(0, 0.4, ''hello''), (0.5, 0.9, ''world'')], segment_start = 3,
          recognizer = 2, outside = quiet\<rparr> \<and>
   AcceptWaveform (scripted (scenario :: unit response list)) 2
     (tobytes (slice (replicate 20000 0) 16000 (16000 + chunk_size))) = Inr (True, 3) \<and>
   Result (scripted (scenario :: unit response list)) 3 = (empty_result, 3) \<and>
   list_all is_space (r_text empty_result) \<and>
   for_loop (scripted (scenario :: unit response list)) False (replicate 20000 0)
     ([0, 8000] @ [16000])
     \<lparr>subtitles = [], segment_start = 0, recognizer = 0, outside = quiet\<rparr> =
     Inr \<lparr>subtitles = [(0, 0.4, ''hello''), (0.5, 0.9, ''world'')], segment_start = 3,
          recognizer = 3, outside = quiet\<rparr>"
proof -
  let ?eng = "scripted (scenario :: unit response list)"
  let ?s0 = "\<lparr>subtitles = [], segment_start = 0, recognizer = 0 :: nat, outside = quiet\<rparr>"
  let ?s1 = "\<lparr>subtitles = [(0, 0.4, ''hello''), (0.5, 0.9, ''world'')], segment_start = 3,
          recognizer = 2 :: nat, outside = quiet\<rparr>"
  have pre: "for_loop ?eng False (replicate 20000 0) [0, 8000] ?s0 = Inr ?s1"
    by (simp only: loop_scenario_prefix if_False)
  have acc: "AcceptWaveform ?eng (recognizer ?s1)
      (tobytes (slice (replicate 20000 0) 16000 (16000 + chunk_size))) = Inr (True, 3)"
    by (simp add: scripted_simps scenario_def)
  have res: "Result ?eng 3 = (empty_result, 3)"
    by (simp add: scripted_simps scenario_def response_result_def)
  have sp: "list_all is_space (r_text empty_result)"
    by (simp add: empty_result_def)
  from silence_discarded [OF pre acc res sp, of "[]"]
  have "for_loop ?eng False (replicate 20000 0) ([0, 8000] @ [16000]) ?s0 =
      Inr (?s1\<lparr>recognizer := 3\<rparr>)"
    by simp
  with pre acc res sp show ?thesis by simp
qed

text \<open>
  C3. \<^verbatim>\<open>segment_start\<close> is \<open>0\<close> before the first window. After any number of windows of a
  run it is three times the number of windows so far whose result was final with a text
  that is not empty after stripping (\<^const>\<open>finalized_nonempty\<close>): each such result adds
  exactly 3, whatever words it lists, and nothing else changes the offset. Hence it is
  never negative and never larger than at a later point of the run.
\<close>

theorem segment_start_steps:
  assumes "transcribe_loop eng debug a r w = Inr s"
    and "chunk_starts 0 (length a) = pre @ post"
  shows "\<exists>s1. for_loop eng debug a pre
            \<lparr>subtitles = [], segment_start = 0, recognizer = r, outside = w\<rparr> = Inr s1 \<and>
          segment_start s1 = 3 * int (finalized_nonempty eng a pre r) \<and>
          0 \<le> segment_start s1 \<and> segment_start s1 \<le> segment_start s \<and>
          segment_start s = 3 * int (finalized_nonempty eng a (pre @ post) r)"
proof -
  let ?s0 = "\<lparr>subtitles = [], segment_start = 0, recognizer = r, outside = w\<rparr>"
  from assms have all: "for_loop eng debug a (pre @ post) ?s0 = Inr s"
    by (simp add: transcribe_loop_def)
  then obtain s1 where p: "for_loop eng debug a pre ?s0 = Inr s1"
    and q: "for_loop eng debug a post s1 = Inr s"
    using for_loop_prefix by blast
  from for_loop_segment_start [OF p]
  have a1: "segment_start s1 = 3 * int (finalized_nonempty eng a pre r)" by simp
  from for_loop_segment_start [OF q]
  have a2: "segment_start s1 \<le> segment_start s" by simp
  from for_loop_segment_start [OF all]
  have a3: "segment_start s = 3 * int (finalized_nonempty eng a (pre @ post) r)" by simp
  from p a1 a2 a3 show ?thesis by simp
qed

theorem segment_start_steps_witness:
  "transcribe_loop (scripted (scenario :: unit response list)) False (replicate 20000 0) 0 quiet =
     Inr \<lparr>subtitles = [(0, 0.4, ''hello''), (0.5, 0.9, ''world'')], segment_start = 3,
          recognizer = 3, outside = quiet\<rparr> \<and>
   chunk_starts 0 (length (replicate 20000 (0 :: sample))) = [0, 8000] @ [16000] \<and>
   int (finalized_nonempty (scripted (scenario :: unit response list)) (replicate 20000 0)
     ([0, 8000] @ [16000]) 0) = 1"
proof -
  let ?eng = "scripted (scenario :: unit response list)"
  let ?a = "replicate 20000 (0 :: sample)"
  let ?s = "\<lparr>subtitles = [(0, 0.4, ''hello''), (0.5, 0.9, ''world'')], segment_start = 3,
          recognizer = 3 :: nat, outside = quiet\<rparr>"
  have len: "length ?a = 20000" by simp
  have run: "transcribe_loop ?eng False ?a 0 quiet = Inr ?s"
    by (simp only: transcribe_loop_scenario [OF len] if_False)
  have starts: "chunk_starts 0 (length ?a) = [0, 8000] @ [16000]"
    by (simp add: chunk_starts_20000)
  from segment_start_steps [OF run starts]
  have "segment_start ?s = 3 * int (finalized_nonempty ?eng ?a ([0, 8000] @ [16000]) 0)"
    by blast
  then have "int (finalized_nonempty ?eng ?a ([0, 8000] @ [16000]) 0) = 1"
    by simp
  with run starts show ?thesis by (intro conjI)
qed

text \<open>
  C8. If \<^verbatim>\<open>AcceptWaveform\<close> raises at some window, after the windows before it went through,
  \<^verbatim>\<open>transcribe_audio\<close> ends with that very exception. Nothing is returned: the entries
  collected so far are lost with the local variables. The loop does not call the
  recogniser again: the outcome is the exception whatever the recogniser would answer to
  the same or to any later window (\<open>post\<close> and the rest of the recogniser are arbitrary).
  The code has no exception classes of its own; the failure of the feed call is the
  exception Vosk raised.
\<close>

theorem feed_failure_is_fatal:
  assumes "session eng model_path sample_rate = Inr r"
    and "chunk_starts 0 (length a) = pre @ i # post"
    and "for_loop eng debug a pre
           \<lparr>subtitles = [], segment_start = 0, recognizer = r,
            outside = (if \<not> debug then w\<lparr>log_level := - 1\<rparr> else w)\<rparr> = Inr s1"
    and "AcceptWaveform eng (recognizer s1) (tobytes (slice a i (i + chunk_size))) = Inl e"
  shows "transcribe_audio eng w a sample_rate model_path debug = Inl (e, outside s1) \<and>
         returned (transcribe_audio eng w a sample_rate model_path debug) = Inl e"
proof -
  from assms(4) have "body eng debug a i s1 = Inl (e, outside s1)"
    by (rule body_raises)
  with assms(3) have "for_loop eng debug a (pre @ i # post)
      \<lparr>subtitles = [], segment_start = 0, recognizer = r,
       outside = (if \<not> debug then w\<lparr>log_level := - 1\<rparr> else w)\<rparr> = Inl (e, outside s1)"
    by (simp add: for_loop_append)
  with assms(1,2) have "transcribe_audio eng w a sample_rate model_path debug = Inl (e, outside s1)"
    by (simp add: transcribe_audio_def transcribe_loop_def)
  then show ?thesis by (simp add: returned_def)
qed

theorem feed_failure_is_fatal_witness:
  "session (scripted (failing ())) ''vosk-model-small-en-us-0.15'' 16000 = Inr 0 \<and>
   chunk_starts 0 (length (replicate 20000 (0 :: sample))) = [0] @ 8000 # [16000] \<and>
   AcceptWaveform (scripted (failing ())) 1
     (tobytes (slice (replicate 20000 0) 8000 (8000 + chunk_size))) = Inl () \<and>
   returned (transcribe_audio (scripted (failing ())) quiet (replicate 20000 0) 16000
     ''vosk-model-small-en-us-0.15'' False) = Inl ()"
proof -
  let ?eng = "scripted (failing ())"
  let ?a = "replicate 20000 (0 :: sample)"
  let ?s1 = "\<lparr>subtitles = [], segment_start = 0, recognizer = 1 :: nat,
              outside = quiet\<lparr>log_level := - 1\<rparr>\<rparr>"
  have ses: "session ?eng ''vosk-model-small-en-us-0.15'' 16000 = Inr 0"
    by (rule session_scripted)
  have starts: "chunk_starts 0 (length ?a) = [0] @ 8000 # [16000]"
    by (simp add: chunk_starts_20000)
  have pre: "for_loop ?eng False ?a [0]
      \<lparr>subtitles = [], segment_start = 0, recognizer = 0,
       outside = (if \<not> False then quiet\<lparr>log_level := - 1\<rparr> else quiet)\<rparr> = Inr ?s1"
    by (simp add: body_def scripted_simps failing_def)
  have acc: "AcceptWaveform ?eng (recognizer ?s1)
      (tobytes (slice ?a 8000 (8000 + chunk_size))) = Inl ()"
    by (simp add: scripted_simps failing_def)
  from feed_failure_is_fatal [OF ses starts pre acc]
  have "returned (transcribe_audio ?eng quiet ?a 16000 ''vosk-model-small-en-us-0.15'' False) = Inl ()"
    by blast
  with ses starts acc show ?thesis by simp
qed



text \<open>
  C9. If every word the recogniser reports has \<open>0 \<le> start \<le> end\<close>, then every entry of
  the returned list has \<open>0 \<le> start \<le> end\<close>.
\<close>

theorem entries_valid:
  assumes "\<forall>r. list_all (\<lambda>wi. 0 \<le> w_start wi \<and> w_start wi \<le> w_end wi)
             (get_result (fst (Result eng r)))"
    and "transcribe_audio eng w audio_data sample_rate model_path debug = Inr (subs, w')"
  shows "list_all (\<lambda>(st, en, word). 0 \<le> st \<and> st \<le> en) subs"
proof -
  from assms(2) obtain r s where
    "transcribe_loop eng debug audio_data r (if \<not> debug then w\<lparr>log_level := - 1\<rparr> else w) = Inr s"
    and "subs = subtitles s"
    by (auto simp: transcribe_audio_def Let_def split: sum.splits)
  then show ?thesis
    using for_loop_valid [OF assms(1), of debug audio_data "chunk_starts 0 (length audio_data)"
      "\<lparr>subtitles = [], segment_start = 0, recognizer = r,
        outside = (if \<not> debug then w\<lparr>log_level := - 1\<rparr> else w)\<rparr>" s]
    by (simp add: transcribe_loop_def)
qed

theorem entries_valid_witness:
  "(\<forall>k. list_all (\<lambda>wi. 0 \<le> w_start wi \<and> w_start wi \<le> w_end wi)
      (get_result (fst (Result (scripted (scenario :: unit response list)) k)))) \<and>
   transcribe_audio (scripted (scenario :: unit response list)) quiet (replicate 20000 0) 16000
     ''vosk-model-small-en-us-0.15'' False =
     Inr ([(0, 0.4, ''hello''), (0.5, 0.9, ''world'')], quiet\<lparr>log_level := - 1\<rparr>) \<and>
   list_all (\<lambda>(st, en, word). 0 \<le> st \<and> st \<le> en)
     [(0 :: real, 0.4 :: real, ''hello''), (0.5, 0.9, ''world'')]"
proof -
  let ?eng = "scripted (scenario :: unit response list)"
  have hyp: "\<forall>k. list_all (\<lambda>wi. 0 \<le> w_start wi \<and> w_start wi \<le> w_end wi)
      (get_result (fst (Result ?eng k)))"
  proof
    fix k
    show "list_all (\<lambda>wi. 0 \<le> w_start wi \<and> w_start wi \<le> w_end wi)
        (get_result (fst (Result ?eng k)))"
      by (rule scenario_results
          [where P = "\<lambda>res. list_all (\<lambda>wi. 0 \<le> w_start wi \<and> w_start wi \<le> w_end wi)
             (get_result res)"])
        (simp_all add: hello_world_def empty_result_def get_result_def)
  qed
  have "length (replicate 20000 (0 :: sample)) = 20000" by simp
  then have run: "transcribe_audio ?eng quiet (replicate 20000 0) 16000
     ''vosk-model-small-en-us-0.15'' False =
     Inr ([(0, 0.4, ''hello''), (0.5, 0.9, ''world'')], quiet\<lparr>log_level := - 1\<rparr>)"
    by (rule transcribe_audio_scenario_quiet)
  from entries_valid [OF hyp run] hyp run show ?thesis by (intro conjI)
qed

text \<open>
  C2. The specification says that the returned list is non-decreasing in its start field
  for every sequence of responses of the recogniser. The code never sorts: it appends the
  words of each result in the order the recogniser lists them, shifted by an offset that
  grows by exactly 3 per result, whatever the times inside the result. The last theorem
  below is a run of eight windows in which a first result holds a word 3.25 s into its
  utterance and the next result a word at the start of its own: the returned starts are
  3.25 and then 3.0. What holds is the law under a condition on the recogniser: if every
  result lists its words in non-decreasing order of start, and every start lies between
  0 and 3 (the step of the offset), then the returned list is non-decreasing in start.
\<close>

theorem entries_ordered:
  assumes "\<forall>r. sorted (map w_start (get_result (fst (Result eng r)))) \<and>
             list_all (\<lambda>wi. 0 \<le> w_start wi \<and> w_start wi \<le> 3) (get_result (fst (Result eng r)))"
    and "transcribe_audio eng w audio_data sample_rate model_path debug = Inr (subs, w')"
  shows "sorted (map fst subs)"
proof -
  from assms(2) obtain r s where
    "transcribe_loop eng debug audio_data r (if \<not> debug then w\<lparr>log_level := - 1\<rparr> else w) = Inr s"
    and "subs = subtitles s"
    by (auto simp: transcribe_audio_def Let_def split: sum.splits)
  then show ?thesis
    using for_loop_ordered [OF assms(1), of debug audio_data "chunk_starts 0 (length audio_data)"
      "\<lparr>subtitles = [], segment_start = 0, recognizer = r,
        outside = (if \<not> debug then w\<lparr>log_level := - 1\<rparr> else w)\<rparr>" s]
    by (simp add: transcribe_loop_def)
qed

theorem entries_ordered_witness:
  "(\<forall>k. sorted (map w_start (get_result (fst (Result (scripted (scenario :: unit response list)) k)))) \<and>
      list_all (\<lambda>wi. 0 \<le> w_start wi \<and> w_start wi \<le> 3)
        (get_result (fst (Result (scripted (scenario :: unit response list)) k)))) \<and>
   transcribe_audio (scripted (scenario :: unit response list)) quiet (replicate 20000 0) 16000
     ''vosk-model-small-en-us-0.15'' False =
     Inr ([(0, 0.4, ''hello''), (0.5, 0.9, ''world'')], quiet\<lparr>log_level := - 1\<rparr>) \<and>
   sorted (map fst [(0 :: real, 0.4 :: real, ''hello''), (0.5, 0.9, ''world'')])"
proof -
  let ?eng = "scripted (scenario :: unit response list)"
  have hyp: "\<forall>k. sorted (map w_start (get_result (fst (Result ?eng k)))) \<and>
      list_all (\<lambda>wi. 0 \<le> w_start wi \<and> w_start wi \<le> 3) (get_result (fst (Result ?eng k)))"
  proof
    fix k
    show "sorted (map w_start (get_result (fst (Result ?eng k)))) \<and>
      list_all (\<lambda>wi. 0 \<le> w_start wi \<and> w_start wi \<le> 3) (get_result (fst (Result ?eng k)))"
      by (rule scenario_results
          [where P = "\<lambda>res. sorted (map w_start (get_result res)) \<and>
             list_all (\<lambda>wi. 0 \<le> w_start wi \<and> w_start wi \<le> 3) (get_result res)"])
        (simp_all add: hello_world_def empty_result_def get_result_def)
  qed
  have "length (replicate 20000 (0 :: sample)) = 20000" by simp
  then have run: "transcribe_audio ?eng quiet (replicate 20000 0) 16000
     ''vosk-model-small-en-us-0.15'' False =
     Inr ([(0, 0.4, ''hello''), (0.5, 0.9, ''world'')], quiet\<lparr>log_level := - 1\<rparr>)"
    by (rule transcribe_audio_scenario_quiet)
  from entries_ordered [OF hyp run] hyp run show ?thesis by (intro conjI)
qed

theorem ordering_counterexample:
  "transcribe_audio (scripted (long_utterance :: unit response list)) quiet (replicate 64000 0)
     16000 ''vosk-model-small-en-us-0.15'' False =
     Inr ([(3.25, 3.5, ''late''), (3.0, 3.25, ''early'')], quiet\<lparr>log_level := - 1\<rparr>) \<and>
   \<not> sorted (map fst [(3.25 :: real, 3.5 :: real, ''late''), (3.0, 3.25, ''early'')])"
proof -
  have "length (replicate 64000 (0 :: sample)) = 64000" by simp
  then have "transcribe_audio (scripted (long_utterance :: unit response list)) quiet
     (replicate 64000 0) 16000 ''vosk-model-small-en-us-0.15'' False =
     Inr ([(3.25, 3.5, ''late''), (3.0, 3.25, ''early'')], quiet\<lparr>log_level := - 1\<rparr>)"
    by (rule transcribe_audio_long_utterance)
  moreover have "\<not> sorted (map fst [(3.25 :: real, 3.5 :: real, ''late''), (3.0, 3.25, ''early'')])"
    by simp
  ultimately show ?thesis by (intro conjI)
qed

end
